theory Spec2Isabelle
  imports Complex_Main
begin

section \<open>Messages and the node\<close>

text \<open>
  The program is one Python class, \<open>TeleopTwistKeyboard\<close>, and \<open>main\<close>. Python floats
  are modelled as reals (rounding is not modelled); the integer entries of the binding
  tables are embedded in the reals, as Python does when it multiplies them by a float.
  A key is a Python string (of length at most one when it comes from \<open>get_key\<close>).

  The attributes \<open>self.x\<close>, \<open>self.y\<close>, \<open>self.z\<close>, \<open>self.th\<close> are the fields
  \<open>self_x\<close>, \<open>self_y\<close>, \<open>self_z\<close>, \<open>self_th\<close>; the fields \<open>x\<close>, \<open>y\<close>, \<open>z\<close> of a
  \<open>geometry_msgs\<close> vector are \<open>vec_x\<close>, \<open>vec_y\<close>, \<open>vec_z\<close>; the fields \<open>linear\<close> and
  \<open>angular\<close> of a twist are \<open>twist_linear\<close> and \<open>twist_angular\<close>; the header's fields
  are \<open>stamp\<close> and \<open>header_frame_id\<close>. Every other name is the source's.
\<close>

type_synonym time = nat

record vector3 =
  vec_x :: real
  vec_y :: real
  vec_z :: real

record twist =
  twist_linear :: vector3
  twist_angular :: vector3

record header =
  stamp :: time
  header_frame_id :: string

datatype message = Twist twist | TwistStamped header twist

datatype message_type = Twist_type | TwistStamped_type

datatype error = Exception | ZeroDivisionError | AttributeError | KeyboardInterrupt | RCLError

datatype console_line = HELP_MSG | Vels real real | Exception_in_keyboard_thread

text \<open>
  A message class called with no arguments builds a message whose numbers are zero and
  whose strings are empty (lines 61 to 63 and 112).
\<close>

definition zero_vector :: vector3 where
  "zero_vector = \<lparr>vec_x = 0, vec_y = 0, vec_z = 0\<rparr>"

definition zero_twist :: twist where
  "zero_twist = \<lparr>twist_linear = zero_vector, twist_angular = zero_vector\<rparr>"

definition new_message :: "message_type \<Rightarrow> message" where
  "new_message t =
     (case t of
        Twist_type \<Rightarrow> Twist zero_twist
      | TwistStamped_type \<Rightarrow> TwistStamped \<lparr>stamp = 0, header_frame_id = []\<rparr> zero_twist)"

text \<open>
  The node. \<open>published\<close> is the sequence of messages handed to \<open>publisher.publish\<close>
  (each a copy of \<open>twist_msg\<close> as it was at that moment), and \<open>console\<close> the sequence of
  lines printed; \<open>timer_period\<close> is the period given to \<open>create_timer\<close>.
\<close>

record node =
  stamped :: bool
  frame_id :: string
  repeat_rate :: real
  twist_msg_type :: message_type
  speed :: real
  turn :: real
  self_x :: real
  self_y :: real
  self_z :: real
  self_th :: real
  twist_msg :: message
  status :: nat
  running :: bool
  timer_period :: real
  published :: "message list"
  console :: "console_line list"

record parameters =
  param_stamped :: bool
  param_frame_id :: string
  param_repeat_rate :: real

subsection \<open>The binding tables (lines 70 to 98)\<close>

definition move_bindings :: "(string \<times> real \<times> real \<times> real \<times> real) list" where
  "move_bindings =
     [(''i'', (1, 0, 0, 0)),
      (''o'', (1, 0, 0, -1)),
      (''j'', (0, 0, 0, 1)),
      (''l'', (0, 0, 0, -1)),
      (''u'', (1, 0, 0, 1)),
      ('','', (-1, 0, 0, 0)),
      (''.'', (-1, 0, 0, 1)),
      (''m'', (-1, 0, 0, -1)),
      (''O'', (1, -1, 0, 0)),
      (''I'', (1, 0, 0, 0)),
      (''J'', (0, 1, 0, 0)),
      (''L'', (0, -1, 0, 0)),
      (''U'', (1, 1, 0, 0)),
      (''<'', (-1, 0, 0, 0)),
      (''>'', (-1, -1, 0, 0)),
      (''M'', (-1, 1, 0, 0)),
      (''t'', (0, 0, 1, 0)),
      (''b'', (0, 0, -1, 0))]"

definition speed_bindings :: "(string \<times> real \<times> real) list" where
  "speed_bindings =
     [(''q'', (1.1, 1.1)),
      (''z'', (0.9, 0.9)),
      (''w'', (1.1, 1)),
      (''x'', (0.9, 1)),
      (''e'', (1, 1.1)),
      (''c'', (1, 0.9))]"

subsection \<open>Construction (lines 44 to 122)\<close>

text \<open>
  The constructor raises on a frame id without stamped mode (line 57), and the division
  of line 122 raises when the rate is zero. The terminal settings it saves are not
  modelled.
\<close>

definition init :: "parameters \<Rightarrow> error + node" where
  "init p =
     (if \<not> param_stamped p \<and> param_frame_id p \<noteq> [] then Inl Exception
      else
        let t = (if param_stamped p then TwistStamped_type else Twist_type) in
        if param_repeat_rate p = 0 then Inl ZeroDivisionError
        else Inr \<lparr>stamped = param_stamped p,
                  frame_id = param_frame_id p,
                  repeat_rate = param_repeat_rate p,
                  twist_msg_type = t,
                  speed = 0.5,
                  turn = 1.0,
                  self_x = 0,
                  self_y = 0,
                  self_z = 0,
                  self_th = 0,
                  twist_msg = new_message t,
                  status = 0,
                  running = True,
                  timer_period = 1.0 / param_repeat_rate p,
                  published = [],
                  console = []\<rparr>)"

subsection \<open>One keystroke (lines 153 to 176)\<close>

definition vels :: "node \<Rightarrow> console_line" where
  "vels n = Vels (speed n) (turn n)"

definition print_line :: "console_line \<Rightarrow> node \<Rightarrow> node" where
  "print_line l n = n\<lparr>console := console n @ [l]\<rparr>"

text \<open>
  The body of the reader's loop for the key that \<open>get_key\<close> returned, run without
  interruption: the three branches in the source's order.
\<close>

definition process_key :: "string \<Rightarrow> node \<Rightarrow> node" where
  "process_key key n =
     (case map_of move_bindings key of
        Some (bx, by, bz, bth) \<Rightarrow>
          n\<lparr>self_x := bx, self_y := by, self_z := bz, self_th := bth\<rparr>
      | None \<Rightarrow>
          (case map_of speed_bindings key of
             Some (f_speed, f_turn) \<Rightarrow>
               let n1 = n\<lparr>speed := speed n * f_speed\<rparr>;
                   n2 = n1\<lparr>turn := turn n1 * f_turn\<rparr>;
                   n3 = print_line (vels n2) n2;
                   n4 = (if status n3 = 14 then print_line HELP_MSG n3 else n3)
               in n4\<lparr>status := (status n4 + 1) mod 15\<rparr>
           | None \<Rightarrow>
               let n1 = n\<lparr>self_x := 0, self_y := 0, self_z := 0, self_th := 0\<rparr>
               in if key = [CHR 0x03] then n1\<lparr>running := False\<rparr> else n1))"

subsection \<open>The publisher (lines 185 to 223)\<close>

definition twist_of :: "message \<Rightarrow> twist" where
  "twist_of m = (case m of Twist t \<Rightarrow> t | TwistStamped _ t \<Rightarrow> t)"

definition header_of :: "message \<Rightarrow> header option" where
  "header_of m = (case m of Twist _ \<Rightarrow> None | TwistStamped h _ \<Rightarrow> Some h)"

text \<open>
  \<open>publisher.publish\<close> belongs to the transport; it is taken to accept every message.
\<close>

definition publish :: "node \<Rightarrow> node" where
  "publish n = n\<lparr>published := published n @ [twist_msg n]\<rparr>"

text \<open>
  \<open>publish_twist\<close>, the timer's callback, at clock reading \<open>now\<close>. In stamped mode the
  message must have a \<open>twist\<close> attribute and a header (line 188), otherwise it must
  have the fields \<open>linear\<close> and \<open>angular\<close> itself (line 195): on a message of the other
  class Python raises AttributeError before anything is written.
\<close>

definition publish_twist :: "time \<Rightarrow> node \<Rightarrow> error + node" where
  "publish_twist now n =
     (let t = \<lparr>twist_linear = \<lparr>vec_x = self_x n * speed n,
                          vec_y = self_y n * speed n,
                          vec_z = self_z n * speed n\<rparr>,
               twist_angular = \<lparr>vec_x = 0, vec_y = 0, vec_z = self_th n * turn n\<rparr>\<rparr>
      in if stamped n then
           (case twist_msg n of
              Twist _ \<Rightarrow> Inl AttributeError
            | TwistStamped h _ \<Rightarrow>
                Inr (publish (n\<lparr>twist_msg :=
                  TwistStamped (h\<lparr>stamp := now, header_frame_id := frame_id n\<rparr>) t\<rparr>)))
         else
           (case twist_msg n of
              Twist _ \<Rightarrow> Inr (publish (n\<lparr>twist_msg := Twist t\<rparr>))
            | TwistStamped _ _ \<Rightarrow> Inl AttributeError))"

text \<open>
  \<open>stop\<close> at clock reading \<open>now\<close>: it stamps the header in stamped mode, zeroes the six
  fields of the message and publishes it. (Restoring the terminal is not modelled.)
\<close>

definition stop :: "time \<Rightarrow> node \<Rightarrow> error + node" where
  "stop now n =
     (if stamped n then
        (case twist_msg n of
           Twist _ \<Rightarrow> Inl AttributeError
         | TwistStamped h _ \<Rightarrow>
             Inr (publish (n\<lparr>twist_msg := TwistStamped (h\<lparr>stamp := now\<rparr>) zero_twist\<rparr>)))
      else
        (case twist_msg n of
           Twist _ \<Rightarrow> Inr (publish (n\<lparr>twist_msg := Twist zero_twist\<rparr>))
         | TwistStamped _ _ \<Rightarrow> Inl AttributeError))"

text \<open>
  The message object has the class chosen at construction. Nothing assigns
  \<open>self.twist_msg\<close> or \<open>self.stamped\<close> after the constructor.
\<close>

definition msg_ok :: "node \<Rightarrow> bool" where
  "msg_ok n = (case twist_msg n of Twist _ \<Rightarrow> \<not> stamped n | TwistStamped _ _ \<Rightarrow> stamped n)"

subsection \<open>The reader's loop (lines 145 to 180)\<close>

text \<open>
  \<open>get_key_loop\<close> on the results of its calls to \<open>get_key\<close>, each a key or an exception,
  with nothing else running in between. When the results are used up the reader is
  blocked in \<open>get_key\<close>. Any exception ends the loop through the handler of lines 178
  to 180. The \<open>break\<close> of line 176 leaves the loop as the test of line 150 would.
\<close>

definition keyboard_exception :: "node \<Rightarrow> node" where
  "keyboard_exception n = (print_line Exception_in_keyboard_thread n)\<lparr>running := False\<rparr>"

fun key_loop :: "(error + string) list \<Rightarrow> node \<Rightarrow> node" where
  "key_loop [] n = n"
| "key_loop (r # rs) n =
     (if running n then
        (case r of
           Inl e \<Rightarrow> keyboard_exception n
         | Inr key \<Rightarrow> key_loop rs (process_key key n))
      else n)"

definition get_key_loop :: "(error + string) list \<Rightarrow> node \<Rightarrow> node" where
  "get_key_loop rs n = key_loop rs (print_line (vels n) (print_line HELP_MSG n))"

subsection \<open>The two threads, access by access\<close>

text \<open>
  The reader runs on a thread of its own (line 118) while the timer's callback runs on
  the main thread inside \<open>rclpy.spin\<close> (line 236); no statement of the program takes a
  lock, and CPython may switch threads between any two bytecodes. The steps below are
  cut so that one step holds at most one access to an attribute that the other thread
  reads or writes; every interleaving of the two threads is then a schedule of these
  steps.

  The reader's position is one of the points below: each names the statement that runs
  next, and carries the local variable \<open>key\<close> where that statement reads it. One step of
  the reader is one statement (the tests of lines 153 and 159, which read only the
  tables and \<open>key\<close>, go with the first assignment of the branch taken). The reader is the
  only writer of \<open>x\<close>, \<open>y\<close>, \<open>z\<close>, \<open>th\<close>, \<open>speed\<close>, \<open>turn\<close> and \<open>status\<close>.
\<close>

datatype reader_pc =
    Start
  | While_test
  | In_get_key
  | Move_y string
  | Move_z string
  | Move_th string
  | Speed_turn string
  | Speed_print
  | Speed_help
  | Speed_status
  | Stop_y string
  | Stop_z string
  | Stop_th string
  | Stop_quit string
  | Finished

text \<open>
  The callback \<open>publish_twist\<close> is not one step. Each of the lines 195, 196, 197 and 200
  first reads a component of the intent and then reads a scale, multiplies and stores
  the product in the message; the reader may run between the two, and between any two
  lines. The publisher's position names what runs next; between the read of a component
  and the store it carries the value read. Only the publisher writes the message.
\<close>

datatype publisher_pc =
    Idle
  | Line_189 time
  | Line_190
  | Read_x
  | Write_x real
  | Read_y
  | Write_y real
  | Read_z
  | Write_z real
  | Line_198
  | Line_199
  | Read_th
  | Write_th real
  | Line_203

datatype action = Key string | Read_error | Reader | Timer time | Publisher

text \<open>
  \<open>Key k\<close>: the pending \<open>get_key\<close> returns \<open>k\<close>; \<open>Read_error\<close>: it raises; \<open>Reader\<close>: the
  reader runs its next statement; \<open>Timer now\<close>: the timer fires and the callback starts
  (lines 187 to 192), its clock reading being \<open>now\<close>; \<open>Publisher\<close>: the callback runs its
  next step. An action that the position of its thread does not allow changes nothing:
  the executor runs one callback at a time. A lookup of lines 154 to 161 that found no
  entry would raise KeyError into the handler of line 178.
\<close>

fun reader_step :: "reader_pc \<Rightarrow> action \<Rightarrow> node \<Rightarrow> node \<times> reader_pc" where
  "reader_step Start Reader n = (print_line (vels n) (print_line HELP_MSG n), While_test)"
| "reader_step While_test Reader n = (n, if running n then In_get_key else Finished)"
| "reader_step In_get_key (Key key) n =
     (case map_of move_bindings key of
        Some (bx, by, bz, bth) \<Rightarrow> (n\<lparr>self_x := bx\<rparr>, Move_y key)
      | None \<Rightarrow>
          (case map_of speed_bindings key of
             Some (f_speed, f_turn) \<Rightarrow> (n\<lparr>speed := speed n * f_speed\<rparr>, Speed_turn key)
           | None \<Rightarrow> (n\<lparr>self_x := 0\<rparr>, Stop_y key)))"
| "reader_step In_get_key Read_error n = (keyboard_exception n, Finished)"
| "reader_step (Move_y key) Reader n =
     (case map_of move_bindings key of
        Some (bx, by, bz, bth) \<Rightarrow> (n\<lparr>self_y := by\<rparr>, Move_z key)
      | None \<Rightarrow> (keyboard_exception n, Finished))"
| "reader_step (Move_z key) Reader n =
     (case map_of move_bindings key of
        Some (bx, by, bz, bth) \<Rightarrow> (n\<lparr>self_z := bz\<rparr>, Move_th key)
      | None \<Rightarrow> (keyboard_exception n, Finished))"
| "reader_step (Move_th key) Reader n =
     (case map_of move_bindings key of
        Some (bx, by, bz, bth) \<Rightarrow> (n\<lparr>self_th := bth\<rparr>, While_test)
      | None \<Rightarrow> (keyboard_exception n, Finished))"
| "reader_step (Speed_turn key) Reader n =
     (case map_of speed_bindings key of
        Some (f_speed, f_turn) \<Rightarrow> (n\<lparr>turn := turn n * f_turn\<rparr>, Speed_print)
      | None \<Rightarrow> (keyboard_exception n, Finished))"
| "reader_step Speed_print Reader n = (print_line (vels n) n, Speed_help)"
| "reader_step Speed_help Reader n =
     ((if status n = 14 then print_line HELP_MSG n else n), Speed_status)"
| "reader_step Speed_status Reader n = (n\<lparr>status := (status n + 1) mod 15\<rparr>, While_test)"
| "reader_step (Stop_y key) Reader n = (n\<lparr>self_y := 0\<rparr>, Stop_z key)"
| "reader_step (Stop_z key) Reader n = (n\<lparr>self_z := 0\<rparr>, Stop_th key)"
| "reader_step (Stop_th key) Reader n = (n\<lparr>self_th := 0\<rparr>, Stop_quit key)"
| "reader_step (Stop_quit key) Reader n =
     (if key = [CHR 0x03] then (n\<lparr>running := False\<rparr>, Finished) else (n, While_test))"
| "reader_step pc a n = (n, pc)"

text \<open>
  A store through the local variable \<open>twist\<close>, which is the \<open>twist\<close> attribute of the
  message in stamped mode (line 188) and the message itself otherwise (line 192); on a
  message of the other class the attribute is missing.
\<close>

definition write_twist :: "(twist \<Rightarrow> twist) \<Rightarrow> publisher_pc \<Rightarrow> node \<Rightarrow>
    error + node \<times> publisher_pc" where
  "write_twist f pc n =
     (case twist_msg n of
        Twist t \<Rightarrow>
          if stamped n then Inl AttributeError else Inr (n\<lparr>twist_msg := Twist (f t)\<rparr>, pc)
      | TwistStamped h t \<Rightarrow>
          if stamped n then Inr (n\<lparr>twist_msg := TwistStamped h (f t)\<rparr>, pc)
          else Inl AttributeError)"

definition write_header :: "(header \<Rightarrow> header) \<Rightarrow> publisher_pc \<Rightarrow> node \<Rightarrow>
    error + node \<times> publisher_pc" where
  "write_header f pc n =
     (case twist_msg n of
        Twist t \<Rightarrow> Inl AttributeError
      | TwistStamped h t \<Rightarrow> Inr (n\<lparr>twist_msg := TwistStamped (f h) t\<rparr>, pc))"

fun publisher_step :: "publisher_pc \<Rightarrow> action \<Rightarrow> node \<Rightarrow> error + node \<times> publisher_pc" where
  "publisher_step Idle (Timer now) n =
     (if stamped n then
        (case twist_msg n of
           Twist _ \<Rightarrow> Inl AttributeError
         | TwistStamped _ _ \<Rightarrow> Inr (n, Line_189 now))
      else Inr (n, Read_x))"
| "publisher_step (Line_189 now) Publisher n = write_header (\<lambda>h. h\<lparr>stamp := now\<rparr>) Line_190 n"
| "publisher_step Line_190 Publisher n =
     write_header (\<lambda>h. h\<lparr>header_frame_id := frame_id n\<rparr>) Read_x n"
| "publisher_step Read_x Publisher n = Inr (n, Write_x (self_x n))"
| "publisher_step (Write_x v) Publisher n =
     write_twist (\<lambda>t. t\<lparr>twist_linear := (twist_linear t)\<lparr>vec_x := v * speed n\<rparr>\<rparr>) Read_y n"
| "publisher_step Read_y Publisher n = Inr (n, Write_y (self_y n))"
| "publisher_step (Write_y v) Publisher n =
     write_twist (\<lambda>t. t\<lparr>twist_linear := (twist_linear t)\<lparr>vec_y := v * speed n\<rparr>\<rparr>) Read_z n"
| "publisher_step Read_z Publisher n = Inr (n, Write_z (self_z n))"
| "publisher_step (Write_z v) Publisher n =
     write_twist (\<lambda>t. t\<lparr>twist_linear := (twist_linear t)\<lparr>vec_z := v * speed n\<rparr>\<rparr>) Line_198 n"
| "publisher_step Line_198 Publisher n =
     write_twist (\<lambda>t. t\<lparr>twist_angular := (twist_angular t)\<lparr>vec_x := 0\<rparr>\<rparr>) Line_199 n"
| "publisher_step Line_199 Publisher n =
     write_twist (\<lambda>t. t\<lparr>twist_angular := (twist_angular t)\<lparr>vec_y := 0\<rparr>\<rparr>) Read_th n"
| "publisher_step Read_th Publisher n = Inr (n, Write_th (self_th n))"
| "publisher_step (Write_th v) Publisher n =
     write_twist (\<lambda>t. t\<lparr>twist_angular := (twist_angular t)\<lparr>vec_z := v * turn n\<rparr>\<rparr>) Line_203 n"
| "publisher_step Line_203 Publisher n = Inr (publish n, Idle)"
| "publisher_step pc a n = Inr (n, pc)"

text \<open>One step of the program: of the publisher on its actions, of the reader on the others.\<close>

fun step :: "action \<Rightarrow> node \<times> reader_pc \<times> publisher_pc \<Rightarrow>
    error + node \<times> reader_pc \<times> publisher_pc" where
  "step (Timer now) (n, rpc, ppc) =
     (case publisher_step ppc (Timer now) n of
        Inl e \<Rightarrow> Inl e
      | Inr (n', ppc') \<Rightarrow> Inr (n', rpc, ppc'))"
| "step Publisher (n, rpc, ppc) =
     (case publisher_step ppc Publisher n of
        Inl e \<Rightarrow> Inl e
      | Inr (n', ppc') \<Rightarrow> Inr (n', rpc, ppc'))"
| "step a (n, rpc, ppc) = (case reader_step rpc a n of (n', rpc') \<Rightarrow> Inr (n', rpc', ppc))"

text \<open>
  \<open>rclpy.spin\<close> under a schedule: an exception of the callback leaves \<open>spin\<close> at once,
  with the node as it was.
\<close>

fun spin :: "action list \<Rightarrow> node \<times> reader_pc \<times> publisher_pc \<Rightarrow>
    error option \<times> node \<times> reader_pc \<times> publisher_pc" where
  "spin [] s = (None, s)"
| "spin (a # as) s = (case step a s of Inl e \<Rightarrow> (Some e, s) | Inr s' \<Rightarrow> spin as s')"

text \<open>
  One whole tick with nothing in between: the timer fires and the callback runs to its
  end (thirteen steps in stamped mode, eleven otherwise).
\<close>

definition tick :: "time \<Rightarrow> action list" where
  "tick now = Timer now # replicate 13 Publisher"

subsection \<open>main (lines 226 to 248)\<close>

text \<open>
  \<open>main\<close> under the schedule \<open>sched\<close> of what happens inside \<open>rclpy.spin\<close>, and \<open>ending\<close>,
  the way \<open>spin\<close> ends when no callback raised: \<open>None\<close> when it returns, otherwise the
  exception it raises (KeyboardInterrupt on SIGINT, which may arrive while the callback
  is running). The result is the exception that leaves \<open>main\<close>, if any, and the messages
  published. An exception of the constructor leaves \<open>main\<close> before the \<open>try\<close> of line
  234. The \<open>finally\<close> block runs on every way out of the \<open>try\<close>; an exception raised
  inside it replaces the pending one. The reader may still run during \<open>stop\<close>, but it
  writes no field of the message, so \<open>stop\<close> is taken as one step. (Destroying the node,
  shutting down and joining the reader publish nothing.)
\<close>

definition main :: "parameters \<Rightarrow> action list \<Rightarrow> error option \<Rightarrow> time \<Rightarrow>
    error option \<times> message list" where
  "main p sched ending now =
     (case init p of
        Inl e \<Rightarrow> (Some e, [])
      | Inr n0 \<Rightarrow>
          (case spin sched (n0, Start, Idle) of
             (raised, n, rpc, ppc) \<Rightarrow>
               let exc = (case raised of Some e \<Rightarrow> Some e | None \<Rightarrow> ending);
                   pending = (if exc = Some KeyboardInterrupt then None else exc);
                   n1 = n\<lparr>running := False\<rparr>
               in (case stop now n1 of
                     Inl e \<Rightarrow> (Some e, published n1)
                   | Inr n2 \<Rightarrow> (pending, published n2))))"

text \<open>The velocity intent held by the node.\<close>

definition intent :: "node \<Rightarrow> real \<times> real \<times> real \<times> real" where
  "intent n = (self_x n, self_y n, self_z n, self_th n)"

subsection \<open>The default configuration\<close>

text \<open>
  The parameters as declared at lines 48 to 50, and the node the constructor builds from
  them (see \<open>init_default\<close> below).
\<close>

definition default_parameters :: parameters where
  "default_parameters =
     \<lparr>param_stamped = False, param_frame_id = [], param_repeat_rate = 10.0\<rparr>"

definition default_node :: node where
  "default_node =
     \<lparr>stamped = False, frame_id = [], repeat_rate = 10.0, twist_msg_type = Twist_type,
      speed = 0.5, turn = 1.0, self_x = 0, self_y = 0, self_z = 0, self_th = 0,
      twist_msg = Twist zero_twist, status = 0, running = True, timer_period = 1.0 / 10.0,
      published = [], console = []\<rparr>"

subsection \<open>What the publisher may find in the node\<close>

text \<open>
  Between two keystrokes the intent is the zero tuple or one of the bound tuples:
  \<open>settled\<close>. The reader is inside a handler when it has written the first component of
  a new intent and not yet the last: \<open>in_handler\<close>. \<open>reader_inv\<close> says what holds of the
  intent at each position of the reader: inside a handler, the components already
  written are those of the new tuple.
\<close>

definition settled :: "real \<times> real \<times> real \<times> real \<Rightarrow> bool" where
  "settled v = (v = (0, 0, 0, 0) \<or> v \<in> snd ` set move_bindings)"

fun in_handler :: "reader_pc \<Rightarrow> bool" where
  "in_handler (Move_y key) = True"
| "in_handler (Move_z key) = True"
| "in_handler (Move_th key) = True"
| "in_handler (Stop_y key) = True"
| "in_handler (Stop_z key) = True"
| "in_handler (Stop_th key) = True"
| "in_handler pc = False"

fun reader_inv :: "reader_pc \<Rightarrow> node \<Rightarrow> bool" where
  "reader_inv (Move_y key) n =
     (case map_of move_bindings key of None \<Rightarrow> False
      | Some (bx, by, bz, bth) \<Rightarrow> self_x n = bx)"
| "reader_inv (Move_z key) n =
     (case map_of move_bindings key of None \<Rightarrow> False
      | Some (bx, by, bz, bth) \<Rightarrow> self_x n = bx \<and> self_y n = by)"
| "reader_inv (Move_th key) n =
     (case map_of move_bindings key of None \<Rightarrow> False
      | Some (bx, by, bz, bth) \<Rightarrow> self_x n = bx \<and> self_y n = by \<and> self_z n = bz)"
| "reader_inv (Stop_y key) n = (self_x n = 0)"
| "reader_inv (Stop_z key) n = (self_x n = 0 \<and> self_y n = 0)"
| "reader_inv (Stop_th key) n = (self_x n = 0 \<and> self_y n = 0 \<and> self_z n = 0)"
| "reader_inv pc n = settled (intent n)"

text \<open>
  The callback is at the two statements that write the header only in stamped mode:
  \<open>in_header\<close> names these positions.
\<close>

fun in_header :: "publisher_pc \<Rightarrow> bool" where
  "in_header (Line_189 now) = True"
| "in_header Line_190 = True"
| "in_header pc = False"

section \<open>Basic facts\<close>

lemma init_default: "init default_parameters = Inr default_node"
  by (simp add: init_def default_parameters_def default_node_def new_message_def)

lemma init_fields:
  "init p = Inr n \<Longrightarrow>
     speed n = 0.5 \<and> turn n = 1 \<and> intent n = (0, 0, 0, 0) \<and> running n \<and> status n = 0 \<and>
     published n = [] \<and> console n = [] \<and> stamped n = param_stamped p \<and>
     frame_id n = param_frame_id p \<and>
     twist_msg n = new_message (if param_stamped p then TwistStamped_type else Twist_type)"
  by (auto simp: init_def Let_def intent_def split: if_splits)

lemma init_msg_ok: "init p = Inr n \<Longrightarrow> msg_ok n"
  by (auto simp: init_def Let_def msg_ok_def new_message_def split: if_splits)

lemma default_node_msg_ok: "msg_ok default_node"
  using init_msg_ok [OF init_default] .

lemma process_key_frame:
  "twist_msg (process_key k n) = twist_msg n \<and> stamped (process_key k n) = stamped n \<and>
   frame_id (process_key k n) = frame_id n \<and> published (process_key k n) = published n"
  by (auto simp: process_key_def Let_def print_line_def split: option.splits prod.splits)

lemma process_key_msg_ok: "msg_ok (process_key k n) = msg_ok n"
  using process_key_frame [of k n] by (simp add: msg_ok_def split: message.splits)

lemma move_keys_distinct: "distinct (map fst move_bindings)"
  by (simp add: move_bindings_def)

lemma process_move_key:
  assumes "(k, b) \<in> set move_bindings"
  shows "intent (process_key k n) = b"
    and "speed (process_key k n) = speed n"
    and "turn (process_key k n) = turn n"
proof -
  from assms move_keys_distinct have 1: "map_of move_bindings k = Some b" by simp
  show "intent (process_key k n) = b"
    using 1 by (cases b) (auto simp: process_key_def intent_def)
  show "speed (process_key k n) = speed n"
    using 1 by (cases b) (auto simp: process_key_def)
  show "turn (process_key k n) = turn n"
    using 1 by (cases b) (auto simp: process_key_def)
qed

lemma speed_key_lookup:
  assumes "k \<in> set (map fst speed_bindings)"
  shows "map_of move_bindings k = None" and "map_of speed_bindings k \<noteq> None"
proof -
  from assms have "k \<notin> set (map fst move_bindings)"
    by (auto simp: speed_bindings_def move_bindings_def)
  then show "map_of move_bindings k = None" by (simp add: map_of_eq_None_iff)
  from assms show "map_of speed_bindings k \<noteq> None" by (simp add: map_of_eq_None_iff)
qed

lemma process_speed_key:
  assumes "k \<in> set (map fst speed_bindings)"
  shows "speed (process_key k n) = speed n * fst (the (map_of speed_bindings k))"
    and "turn (process_key k n) = turn n * snd (the (map_of speed_bindings k))"
    and "running (process_key k n) = running n"
    and "intent (process_key k n) = intent n"
proof -
  from speed_key_lookup [OF assms] obtain a b where
    1: "map_of move_bindings k = None" and 2: "map_of speed_bindings k = Some (a, b)"
    by fastforce
  show "speed (process_key k n) = speed n * fst (the (map_of speed_bindings k))"
    by (simp add: process_key_def 1 2 Let_def print_line_def)
  show "turn (process_key k n) = turn n * snd (the (map_of speed_bindings k))"
    by (simp add: process_key_def 1 2 Let_def print_line_def)
  show "running (process_key k n) = running n"
    by (simp add: process_key_def 1 2 Let_def print_line_def)
  show "intent (process_key k n) = intent n"
    by (simp add: process_key_def 1 2 Let_def print_line_def intent_def)
qed

lemma key_loop_speed_keys:
  "set ks \<subseteq> set (map fst speed_bindings) \<Longrightarrow> running n \<Longrightarrow>
     speed (key_loop (map Inr ks) n) =
       foldl (*) (speed n) (map (\<lambda>k. fst (the (map_of speed_bindings k))) ks) \<and>
     turn (key_loop (map Inr ks) n) =
       foldl (*) (turn n) (map (\<lambda>k. snd (the (map_of speed_bindings k))) ks) \<and>
     intent (key_loop (map Inr ks) n) = intent n"
proof (induction ks arbitrary: n)
  case Nil
  then show ?case by simp
next
  case (Cons k ks)
  then have k: "k \<in> set (map fst speed_bindings)"
    and ks: "set ks \<subseteq> set (map fst speed_bindings)"
    by auto
  have r: "running (process_key k n)"
    using process_speed_key(3) [OF k] Cons.prems(2) by simp
  show ?case
    using Cons.IH [OF ks r] Cons.prems(2) process_speed_key(1,2,4) [OF k, of n] by simp
qed

lemma foldl_times: "foldl (*) (a::real) xs = a * prod_list xs"
  by (induction xs arbitrary: a) (simp_all add: mult.assoc)

lemma stop_ok:
  "msg_ok n \<Longrightarrow>
   \<exists>n'. stop now n = Inr n' \<and> published n' = published n @ [twist_msg n'] \<and>
        twist_of (twist_msg n') = zero_twist \<and> intent n' = intent n \<and>
        speed n' = speed n \<and> turn n' = turn n \<and> msg_ok n'"
  by (cases "twist_msg n")
    (auto simp: msg_ok_def stop_def publish_def twist_of_def intent_def)

lemma publish_twist_ok:
  "msg_ok n \<Longrightarrow>
   \<exists>n'. publish_twist now n = Inr n' \<and>
        published n' = published n @ [twist_msg n'] \<and>
        twist_of (twist_msg n') =
          \<lparr>twist_linear = \<lparr>vec_x = self_x n * speed n, vec_y = self_y n * speed n,
                            vec_z = self_z n * speed n\<rparr>,
           twist_angular = \<lparr>vec_x = 0, vec_y = 0, vec_z = self_th n * turn n\<rparr>\<rparr> \<and>
        intent n' = intent n \<and> speed n' = speed n \<and> turn n' = turn n \<and> msg_ok n'"
  by (cases "twist_msg n")
    (auto simp: msg_ok_def publish_twist_def publish_def twist_of_def Let_def intent_def)

subsection \<open>The scales have no bound\<close>

text \<open>
  Pressing \<open>q\<close> often enough takes both scales above any bound, and pressing \<open>z\<close> often
  enough takes them below any positive bound.
\<close>

lemma replicate_key_scales:
  assumes i: "init p = Inr n0" and k: "k \<in> set (map fst speed_bindings)"
  shows "speed (get_key_loop (map Inr (replicate m k)) n0) =
           0.5 * fst (the (map_of speed_bindings k)) ^ m"
    and "turn (get_key_loop (map Inr (replicate m k)) n0) =
           snd (the (map_of speed_bindings k)) ^ m"
proof -
  let ?n = "print_line (vels n0) (print_line HELP_MSG n0)"
  have f: "speed ?n = 0.5" "turn ?n = 1" "running ?n"
    using init_fields [OF i] by (simp_all add: print_line_def)
  have "set (replicate m k) \<subseteq> {k}" by auto
  with k have s: "set (replicate m k) \<subseteq> set (map fst speed_bindings)" by blast
  have p: "prod_list (map g (replicate m k)) = g k ^ m" for g :: "string \<Rightarrow> real"
    by (induction m) simp_all
  from key_loop_speed_keys [OF s f(3)] f(1,2)
  show "speed (get_key_loop (map Inr (replicate m k)) n0) =
           0.5 * fst (the (map_of speed_bindings k)) ^ m"
    and "turn (get_key_loop (map Inr (replicate m k)) n0) =
           snd (the (map_of speed_bindings k)) ^ m"
    by (simp_all add: get_key_loop_def foldl_times p)
qed

lemma scales_grow_without_bound:
  assumes i: "init p = Inr n0"
  shows "\<exists>m. B < speed (get_key_loop (map Inr (replicate m ''q'')) n0) \<and>
             B < turn (get_key_loop (map Inr (replicate m ''q'')) n0)"
proof -
  have k: "''q'' \<in> set (map fst speed_bindings)" by (simp add: speed_bindings_def)
  have q: "map_of speed_bindings ''q'' = Some (1.1, 1.1)" by (simp add: speed_bindings_def)
  obtain m where m: "2 * \<bar>B\<bar> < (1.1::real) ^ m"
    using real_arch_pow [of "1.1" "2 * \<bar>B\<bar>"] by auto
  then have "B < 0.5 * (1.1::real) ^ m" "B < (1.1::real) ^ m" by linarith+
  then have "B < speed (get_key_loop (map Inr (replicate m ''q'')) n0) \<and>
      B < turn (get_key_loop (map Inr (replicate m ''q'')) n0)"
    using replicate_key_scales [OF i k, of m] by (simp add: q)
  then show ?thesis by (rule exI)
qed

lemma scales_shrink_without_bound:
  assumes i: "init p = Inr n0" and e: "0 < e"
  shows "\<exists>m. speed (get_key_loop (map Inr (replicate m ''z'')) n0) < e \<and>
             turn (get_key_loop (map Inr (replicate m ''z'')) n0) < e"
proof -
  have k: "''z'' \<in> set (map fst speed_bindings)" by (simp add: speed_bindings_def)
  have z: "map_of speed_bindings ''z'' = Some (0.9, 0.9)" by (simp add: speed_bindings_def)
  obtain m where m: "(0.9::real) ^ m < e"
    using real_arch_pow_inv [of e "0.9"] e by auto
  moreover have "0 \<le> (0.9::real) ^ m" by simp
  ultimately have "0.5 * (0.9::real) ^ m < e" by linarith
  with m have "speed (get_key_loop (map Inr (replicate m ''z'')) n0) < e \<and>
      turn (get_key_loop (map Inr (replicate m ''z'')) n0) < e"
    using replicate_key_scales [OF i k, of m] by (simp add: z)
  then show ?thesis by (rule exI)
qed

subsection \<open>The interleaved run\<close>

text \<open>
  Every step of either thread keeps the class of the message, and the reader's
  invariant; so no step of the callback raises, whatever the schedule.
\<close>

lemma reader_step_frame:
  "twist_msg (fst (reader_step pc a n)) = twist_msg n \<and>
   stamped (fst (reader_step pc a n)) = stamped n \<and>
   frame_id (fst (reader_step pc a n)) = frame_id n \<and>
   published (fst (reader_step pc a n)) = published n"
  by (cases pc; cases a)
    (simp_all add: keyboard_exception_def print_line_def split: option.split prod.split)

lemma reader_step_msg_ok: "msg_ok (fst (reader_step pc a n)) = msg_ok n"
  using reader_step_frame [of pc a n] by (simp add: msg_ok_def split: message.splits)

lemma settled_zero: "settled (0, 0, 0, 0)"
  by (simp add: settled_def)

lemma map_of_move_settled: "map_of move_bindings k = Some b \<Longrightarrow> settled b"
  using map_of_SomeD [of move_bindings k b] by (force simp: settled_def)

lemma reader_step_inv:
  "reader_inv pc n \<Longrightarrow> reader_inv (snd (reader_step pc a n)) (fst (reader_step pc a n))"
  by (cases pc; cases a)
    (auto simp: keyboard_exception_def print_line_def intent_def settled_zero
      split: option.split prod.split dest: map_of_move_settled)

lemma reader_inv_intent: "intent n' = intent n \<Longrightarrow> reader_inv pc n' = reader_inv pc n"
  by (cases pc) (simp_all add: intent_def split: option.split prod.split)

lemma reader_inv_outside: "\<not> in_handler pc \<Longrightarrow> reader_inv pc n = settled (intent n)"
  by (cases pc) simp_all

lemma write_twist_ok:
  "msg_ok n \<Longrightarrow>
   \<exists>n'. write_twist f pc n = Inr (n', pc) \<and> msg_ok n' \<and> intent n' = intent n \<and>
        stamped n' = stamped n"
  by (cases "twist_msg n") (auto simp: write_twist_def msg_ok_def intent_def)

lemma write_header_ok:
  "msg_ok n \<Longrightarrow> stamped n \<Longrightarrow>
   \<exists>n'. write_header f pc n = Inr (n', pc) \<and> msg_ok n' \<and> intent n' = intent n \<and>
        stamped n' = stamped n"
  by (cases "twist_msg n") (auto simp: write_header_def msg_ok_def intent_def)

lemma publisher_step_ok:
  assumes "msg_ok n" and "in_header pc \<longrightarrow> stamped n"
  shows "\<exists>n' pc'. publisher_step pc a n = Inr (n', pc') \<and> msg_ok n' \<and>
           intent n' = intent n \<and> (in_header pc' \<longrightarrow> stamped n')"
proof (cases "a = Publisher")
  case True
  show ?thesis
  proof (cases pc)
    case (Line_189 now)
    with assms(2) have s: "stamped n" by simp
    from write_header_ok [OF assms(1) s, of "\<lambda>h. h\<lparr>stamp := now\<rparr>" Line_190]
    show ?thesis using True Line_189 s by auto
  next
    case Line_190
    with assms(2) have s: "stamped n" by simp
    from write_header_ok [OF assms(1) s, of "\<lambda>h. h\<lparr>header_frame_id := frame_id n\<rparr>" Read_x]
    show ?thesis using True Line_190 s by auto
  next
    case (Write_x v)
    from write_twist_ok [OF assms(1),
        of "\<lambda>t. t\<lparr>twist_linear := (twist_linear t)\<lparr>vec_x := v * speed n\<rparr>\<rparr>" Read_y]
    show ?thesis using True Write_x by auto
  next
    case (Write_y v)
    from write_twist_ok [OF assms(1),
        of "\<lambda>t. t\<lparr>twist_linear := (twist_linear t)\<lparr>vec_y := v * speed n\<rparr>\<rparr>" Read_z]
    show ?thesis using True Write_y by auto
  next
    case (Write_z v)
    from write_twist_ok [OF assms(1),
        of "\<lambda>t. t\<lparr>twist_linear := (twist_linear t)\<lparr>vec_z := v * speed n\<rparr>\<rparr>" Line_198]
    show ?thesis using True Write_z by auto
  next
    case Line_198
    from write_twist_ok [OF assms(1),
        of "\<lambda>t. t\<lparr>twist_angular := (twist_angular t)\<lparr>vec_x := 0\<rparr>\<rparr>" Line_199]
    show ?thesis using True Line_198 by auto
  next
    case Line_199
    from write_twist_ok [OF assms(1),
        of "\<lambda>t. t\<lparr>twist_angular := (twist_angular t)\<lparr>vec_y := 0\<rparr>\<rparr>" Read_th]
    show ?thesis using True Line_199 by auto
  next
    case (Write_th v)
    from write_twist_ok [OF assms(1),
        of "\<lambda>t. t\<lparr>twist_angular := (twist_angular t)\<lparr>vec_z := v * turn n\<rparr>\<rparr>" Line_203]
    show ?thesis using True Write_th by auto
  next
    case Line_203
    have "msg_ok (publish n)" "intent (publish n) = intent n"
      using assms(1) by (simp_all add: publish_def msg_ok_def intent_def split: message.splits)
    then show ?thesis using True Line_203 by simp
  qed (use True assms in simp_all)
next
  case False
  show ?thesis
  proof (cases "\<exists>now. a = Timer now \<and> pc = Idle")
    case True
    then obtain now where "a = Timer now" "pc = Idle" by blast
    then show ?thesis using assms(1)
      by (cases "twist_msg n") (auto simp: msg_ok_def)
  next
    case nt: False
    have "publisher_step pc a n = Inr (n, pc)"
      using False nt by (cases pc; cases a) simp_all
    with assms show ?thesis by simp
  qed
qed


lemma step_ok:
  assumes "msg_ok n" and "reader_inv rpc n" and "in_header ppc \<longrightarrow> stamped n"
  shows "\<exists>n' rpc' ppc'. step a (n, rpc, ppc) = Inr (n', rpc', ppc') \<and> msg_ok n' \<and>
           reader_inv rpc' n' \<and> (in_header ppc' \<longrightarrow> stamped n')"
proof (cases "a = Publisher \<or> (\<exists>now. a = Timer now)")
  case True
  from publisher_step_ok [OF assms(1,3), of a] obtain n' ppc' where
    p: "publisher_step ppc a n = Inr (n', ppc')" "msg_ok n'" "intent n' = intent n"
      "in_header ppc' \<longrightarrow> stamped n'" by blast
  have i: "reader_inv rpc n'" using reader_inv_intent [OF p(3), of rpc] assms(2) by blast
  from True p(1) have "step a (n, rpc, ppc) = Inr (n', rpc, ppc')" by auto
  with p(2,4) i show ?thesis by blast
next
  case False
  obtain n' rpc' where r: "reader_step rpc a n = (n', rpc')" by (cases "reader_step rpc a n")
  from False r have e: "step a (n, rpc, ppc) = Inr (n', rpc', ppc)" by (cases a) auto
  have 1: "msg_ok n'" using reader_step_msg_ok [of rpc a n] r assms(1) by simp
  have 2: "reader_inv rpc' n'" using reader_step_inv [OF assms(2), of a] r by simp
  have 3: "stamped n' = stamped n" using reader_step_frame [of rpc a n] r by simp
  from e 1 2 3 assms(3) show ?thesis by blast
qed

lemma spin_ok:
  "msg_ok n \<Longrightarrow> reader_inv rpc n \<Longrightarrow> in_header ppc \<longrightarrow> stamped n \<Longrightarrow>
   \<exists>n' rpc' ppc'. spin sched (n, rpc, ppc) = (None, n', rpc', ppc') \<and> msg_ok n' \<and>
     reader_inv rpc' n'"
proof (induction sched arbitrary: n rpc ppc)
  case Nil
  then show ?case by simp
next
  case (Cons a sched)
  from step_ok [OF Cons.prems, of a] obtain n1 rpc1 ppc1 where
    s: "step a (n, rpc, ppc) = Inr (n1, rpc1, ppc1)" "msg_ok n1" "reader_inv rpc1 n1"
      "in_header ppc1 \<longrightarrow> stamped n1" by blast
  from Cons.IH [OF s(2,3,4)] obtain n' rpc' ppc' where
    t: "spin sched (n1, rpc1, ppc1) = (None, n', rpc', ppc')" "msg_ok n'" "reader_inv rpc' n'"
    by blast
  have "spin (a # sched) (n, rpc, ppc) = (None, n', rpc', ppc')" by (simp add: s(1) t(1))
  with t(2,3) show ?case by blast
qed

lemma init_inv: "init p = Inr n0 \<Longrightarrow> reader_inv Start n0"
  using init_fields [of p n0] by (simp add: settled_zero)

text \<open>
  Run with nothing in between, the statements of one handler are \<open>process_key\<close> (the
  reader takes at most four steps after the key arrives), and the steps of one tick are
  \<open>publish_twist\<close>.
\<close>

lemma four_readers: "replicate 4 Reader = [Reader, Reader, Reader, Reader]"
  by (simp add: numeral_eq_Suc)

lemma handler_uninterrupted:
  "fst (snd (spin (Key k # replicate 4 Reader) (n, In_get_key, ppc))) = process_key k n"
proof (cases "map_of move_bindings k")
  case (Some b)
  then obtain bx "by" bz bth where b: "map_of move_bindings k = Some (bx, by, bz, bth)"
    by (cases b) auto
  show ?thesis
    by (simp add: four_readers process_key_def b)
next
  case None
  note m = this
  show ?thesis
  proof (cases "map_of speed_bindings k")
    case (Some f)
    then obtain fs ft where f: "map_of speed_bindings k = Some (fs, ft)" by (cases f) auto
    show ?thesis
      by (simp add: four_readers process_key_def m f Let_def)
  next
    case None
    show ?thesis
      by (simp add: four_readers process_key_def m None Let_def)
  qed
qed

lemma tick_steps:
  "tick now = [Timer now, Publisher, Publisher, Publisher, Publisher, Publisher, Publisher,
     Publisher, Publisher, Publisher, Publisher, Publisher, Publisher, Publisher]"
  by (simp add: tick_def numeral_eq_Suc)

lemma tick_uninterrupted:
  assumes "msg_ok n"
  shows "\<exists>n'. publish_twist now n = Inr n' \<and> spin (tick now) (n, rpc, Idle) = (None, n', rpc, Idle)"
proof (cases "twist_msg n")
  case (Twist t)
  with assms have s: "\<not> stamped n" by (simp add: msg_ok_def)
  show ?thesis
    by (simp add: tick_steps s Twist write_twist_def publish_twist_def publish_def Let_def)
next
  case (TwistStamped h t)
  with assms have s: "stamped n" by (simp add: msg_ok_def)
  show ?thesis
    by (simp add: tick_steps s TwistStamped write_twist_def write_header_def publish_twist_def
        publish_def Let_def)
qed

lemma zero_twist_fields:
  "zero_twist = \<lparr>twist_linear = \<lparr>vec_x = 0, vec_y = 0, vec_z = 0\<rparr>,
                 twist_angular = \<lparr>vec_x = 0, vec_y = 0, vec_z = 0\<rparr>\<rparr>"
  by (simp add: zero_twist_def zero_vector_def)

lemma main_after_spin:
  assumes "init p = Inr n0" and "spin sched (n0, Start, Idle) = (None, n1, rpc1, ppc1)"
    and "stop now (n1\<lparr>running := False\<rparr>) = Inr n2"
  shows "main p sched ending now =
      ((if ending = Some KeyboardInterrupt then None else ending), published n2)"
  unfolding main_def using assms by (simp add: Let_def)

lemma main_publishes_stop:
  assumes i: "init p = Inr n0"
  shows "\<exists>ms m. main p sched ending now =
           ((if ending = Some KeyboardInterrupt then None else ending), ms @ [m]) \<and>
         twist_of m = zero_twist"
proof -
  have h: "in_header Idle \<longrightarrow> stamped n0" by simp
  from spin_ok [OF init_msg_ok [OF i] init_inv [OF i] h, of sched] obtain n1 rpc1 ppc1 where
    s: "spin sched (n0, Start, Idle) = (None, n1, rpc1, ppc1)" "msg_ok n1" by blast
  let ?n = "n1\<lparr>running := False\<rparr>"
  from s(2) have "msg_ok ?n" by (simp add: msg_ok_def split: message.splits)
  from stop_ok [OF this, of now] obtain n2 where
    t: "stop now ?n = Inr n2" "published n2 = published ?n @ [twist_msg n2]"
    "twist_of (twist_msg n2) = zero_twist" by blast
  from main_after_spin [OF i s(1) t(1), of ending] t(2,3) show ?thesis by auto
qed

lemmas run_defs =
  default_node_def default_parameters_def move_bindings_def speed_bindings_def print_line_def
  vels_def publish_twist_def publish_def keyboard_exception_def Let_def stop_def init_def
  new_message_def zero_twist_def zero_vector_def intent_def write_twist_def write_header_def
  tick_steps

lemma main_example:
  "main default_parameters
     ([Reader, Reader, Key ''i'', Reader, Reader, Reader] @ tick 1 @ [Reader, Read_error])
     (Some RCLError) 2 =
   (Some RCLError,
    [Twist \<lparr>twist_linear = \<lparr>vec_x = 0.5, vec_y = 0, vec_z = 0\<rparr>,
            twist_angular = \<lparr>vec_x = 0, vec_y = 0, vec_z = 0\<rparr>\<rparr>,
     Twist \<lparr>twist_linear = \<lparr>vec_x = 0, vec_y = 0, vec_z = 0\<rparr>,
            twist_angular = \<lparr>vec_x = 0, vec_y = 0, vec_z = 0\<rparr>\<rparr>])"
  by (simp add: main_def run_defs)

lemma init_rejects_frame_id:
  "\<not> param_stamped p \<Longrightarrow> param_frame_id p \<noteq> [] \<Longrightarrow> init p = Inl Exception"
  by (simp add: init_def)

lemma init_stamped:
  "param_stamped p \<Longrightarrow> param_repeat_rate p \<noteq> 0 \<Longrightarrow>
   \<exists>n. init p = Inr n \<and> stamped n \<and> frame_id n = param_frame_id p \<and> published n = []"
  by (simp add: init_def Let_def)

lemma tick_carries_frame_id:
  "msg_ok n \<Longrightarrow> stamped n \<Longrightarrow>
   \<exists>n' h t. publish_twist now n = Inr n' \<and> published n' = published n @ [TwistStamped h t] \<and>
     header_frame_id h = frame_id n \<and> stamp h = now"
  by (cases "twist_msg n") (auto simp: msg_ok_def publish_twist_def publish_def Let_def)

lemma torn_inside_handler:
  "spin ([Reader, Reader, Key ''u'', Reader, Reader, Reader, Reader, Key ''J'', Reader] @ tick 7)
       (default_node, Start, Idle) =
     (None,
      default_node\<lparr>self_x := 0, self_y := 1, self_th := 1,
        twist_msg := Twist \<lparr>twist_linear = \<lparr>vec_x = 0, vec_y = 0.5, vec_z = 0\<rparr>,
                             twist_angular = \<lparr>vec_x = 0, vec_y = 0, vec_z = 1\<rparr>\<rparr>,
        published := [Twist \<lparr>twist_linear = \<lparr>vec_x = 0, vec_y = 0.5, vec_z = 0\<rparr>,
                             twist_angular = \<lparr>vec_x = 0, vec_y = 0, vec_z = 1\<rparr>\<rparr>],
        console := [HELP_MSG, Vels 0.5 1]\<rparr>,
      Move_z ''J'', Idle)"
  by (simp add: run_defs)

lemma torn_across_handler:
  "spin [Reader, Reader, Key ''i'', Reader, Reader, Reader, Reader,
         Timer 7, Publisher, Publisher, Publisher, Publisher,
         Key ''t'', Reader, Reader, Reader, Reader,
         Publisher, Publisher, Publisher, Publisher, Publisher, Publisher, Publisher]
       (default_node, Start, Idle) =
     (None,
      default_node\<lparr>self_z := 1,
        twist_msg := Twist \<lparr>twist_linear = \<lparr>vec_x = 0.5, vec_y = 0, vec_z = 0.5\<rparr>,
                             twist_angular = \<lparr>vec_x = 0, vec_y = 0, vec_z = 0\<rparr>\<rparr>,
        published := [Twist \<lparr>twist_linear = \<lparr>vec_x = 0.5, vec_y = 0, vec_z = 0.5\<rparr>,
                             twist_angular = \<lparr>vec_x = 0, vec_y = 0, vec_z = 0\<rparr>\<rparr>],
        console := [HELP_MSG, Vels 0.5 1]\<rparr>,
      In_get_key, Idle)"
  by (simp add: run_defs)

section \<open>The claims\<close>

subsection \<open>C1: the published command\<close>

lemma i_binding: "(''i'', (1, 0, 0, 0)) \<in> set move_bindings"
  by (simp add: move_bindings_def)



subsection \<open>C2: any other key stops\<close>

text \<open>
  Claim C2. A key that is neither a key of \<open>move_bindings\<close> nor a key of
  \<open>speed_bindings\<close> sets the intent to (0, 0, 0, 0) and leaves both scales as they were.
\<close>

theorem unbound_key_stops:
  "key \<notin> set (map fst move_bindings) \<Longrightarrow> key \<notin> set (map fst speed_bindings) \<Longrightarrow>
     intent (process_key key n) = (0, 0, 0, 0) \<and>
     speed (process_key key n) = speed n \<and> turn (process_key key n) = turn n"
proof -
  assume a: "key \<notin> set (map fst move_bindings)" and b: "key \<notin> set (map fst speed_bindings)"
  from a have 1: "map_of move_bindings key = None" by (simp add: map_of_eq_None_iff)
  from b have 2: "map_of speed_bindings key = None" by (simp add: map_of_eq_None_iff)
  show ?thesis by (simp add: process_key_def 1 2 intent_def Let_def)
qed

text \<open>The space and the Ctrl-C character are such keys.\<close>

theorem unbound_key_stops_witness:
  "'' '' \<notin> set (map fst move_bindings) \<and> '' '' \<notin> set (map fst speed_bindings) \<and>
   [CHR 0x03] \<notin> set (map fst move_bindings) \<and> [CHR 0x03] \<notin> set (map fst speed_bindings) \<and>
   (\<forall>n. intent (process_key '' '' n) = (0, 0, 0, 0) \<and>
        speed (process_key '' '' n) = speed n \<and> turn (process_key '' '' n) = turn n \<and>
        intent (process_key [CHR 0x03] n) = (0, 0, 0, 0) \<and>
        speed (process_key [CHR 0x03] n) = speed n \<and> turn (process_key [CHR 0x03] n) = turn n)"
proof -
  have 1: "'' '' \<notin> set (map fst move_bindings)" by (simp add: move_bindings_def)
  have 2: "'' '' \<notin> set (map fst speed_bindings)" by (simp add: speed_bindings_def)
  have 3: "[CHR 0x03] \<notin> set (map fst move_bindings)" by (simp add: move_bindings_def)
  have 4: "[CHR 0x03] \<notin> set (map fst speed_bindings)" by (simp add: speed_bindings_def)
  show ?thesis
    using 1 2 3 4 unbound_key_stops [OF 1 2] unbound_key_stops [OF 3 4] by simp
qed

subsection \<open>C3: the movement bindings\<close>

text \<open>
  The bound tuples do not take 11 distinct values: the table has 16 distinct tuples
  (only \<open>I\<close> repeats the tuple of \<open>i\<close>, and \<open><\<close> that of the comma).
\<close>

theorem move_tuples_not_11: "card (snd ` set move_bindings) \<noteq> 11"
proof -
  have "card (set (map snd move_bindings)) = 16"
    unfolding List.card_set by (simp add: move_bindings_def)
  then show ?thesis by simp
qed

text \<open>
  Claim C3, amended. The table of movement bindings has 18 entries with 18 distinct keys;
  pressing any of them overwrites the intent with exactly the bound tuple; and the 18
  bound tuples take exactly 16 distinct values.
\<close>

theorem move_bindings_table:
  "length move_bindings = 18 \<and> distinct (map fst move_bindings) \<and>
   (\<forall>kb \<in> set move_bindings. intent (process_key (fst kb) n) = snd kb) \<and>
   card (snd ` set move_bindings) = 16"
proof -
  have 1: "length move_bindings = 18" by (simp add: move_bindings_def)
  have 2: "\<forall>kb \<in> set move_bindings. intent (process_key (fst kb) n) = snd kb"
  proof
    fix kb assume "kb \<in> set move_bindings"
    then have "(fst kb, snd kb) \<in> set move_bindings" by simp
    then show "intent (process_key (fst kb) n) = snd kb" by (rule process_move_key(1))
  qed
  have "card (set (map snd move_bindings)) = 16"
    unfolding List.card_set by (simp add: move_bindings_def)
  then have 3: "card (snd ` set move_bindings) = 16" by simp
  from 1 move_keys_distinct 2 3 show ?thesis by blast
qed

theorem move_bindings_table_witness:
  "(''U'', (1, 1, 0, 0)) \<in> set move_bindings \<and>
   intent (process_key ''U'' default_node) = (1, 1, 0, 0) \<and>
   length move_bindings = 18 \<and> card (snd ` set move_bindings) = 16"
proof -
  have u: "(''U'', (1, 1, 0, 0)) \<in> set move_bindings" by (simp add: move_bindings_def)
  from move_bindings_table [of default_node] have
    a: "\<forall>kb \<in> set move_bindings. intent (process_key (fst kb) default_node) = snd kb"
    and b: "length move_bindings = 18" "card (snd ` set move_bindings) = 16" by blast+
  from a u have "intent (process_key (fst (''U'', (1::real, 1::real, 0::real, 0::real))) default_node)
      = snd (''U'', (1, 1, 0, 0))" by (rule bspec)
  then show ?thesis using u b by simp
qed

subsection \<open>C10: the keys that change one scale\<close>

text \<open>
  Claim C10. The keys \<open>w\<close> and \<open>x\<close> are bound to an angular factor of exactly 1: they
  multiply the linear scale by 1.1 and 0.9 and leave the angular scale as it was. The
  keys \<open>e\<close> and \<open>c\<close> are bound to a linear factor of exactly 1: they multiply the angular
  scale and leave the linear scale as it was. None of the four changes the intent.
\<close>

theorem single_scale_keys:
  "map_of speed_bindings ''w'' = Some (1.1, 1) \<and> map_of speed_bindings ''x'' = Some (0.9, 1) \<and>
   map_of speed_bindings ''e'' = Some (1, 1.1) \<and> map_of speed_bindings ''c'' = Some (1, 0.9) \<and>
   speed (process_key ''w'' n) = speed n * 1.1 \<and> turn (process_key ''w'' n) = turn n \<and>
   intent (process_key ''w'' n) = intent n \<and>
   speed (process_key ''x'' n) = speed n * 0.9 \<and> turn (process_key ''x'' n) = turn n \<and>
   intent (process_key ''x'' n) = intent n \<and>
   speed (process_key ''e'' n) = speed n \<and> turn (process_key ''e'' n) = turn n * 1.1 \<and>
   intent (process_key ''e'' n) = intent n \<and>
   speed (process_key ''c'' n) = speed n \<and> turn (process_key ''c'' n) = turn n * 0.9 \<and>
   intent (process_key ''c'' n) = intent n"
proof -
  have l: "map_of speed_bindings ''w'' = Some (1.1, 1)" "map_of speed_bindings ''x'' = Some (0.9, 1)"
    "map_of speed_bindings ''e'' = Some (1, 1.1)" "map_of speed_bindings ''c'' = Some (1, 0.9)"
    by (simp_all add: speed_bindings_def)
  have k: "''w'' \<in> set (map fst speed_bindings)" "''x'' \<in> set (map fst speed_bindings)"
    "''e'' \<in> set (map fst speed_bindings)" "''c'' \<in> set (map fst speed_bindings)"
    by (simp_all add: speed_bindings_def)
  show ?thesis
    using l process_speed_key(1,2,4) [OF k(1), of n] process_speed_key(1,2,4) [OF k(2), of n]
      process_speed_key(1,2,4) [OF k(3), of n] process_speed_key(1,2,4) [OF k(4), of n]
    by simp
qed

subsection \<open>C9: stop leaves the velocity state alone\<close>

text \<open>
  Claim C9. \<open>stop\<close> zeroes the fields of the outgoing message only: the node's x, y, z,
  th, speed and turn are as before, so a publish tick after \<open>stop\<close> emits the velocity
  held before it.
\<close>

theorem stop_keeps_velocity_state:
  "msg_ok n \<Longrightarrow>
   \<exists>n'. stop now n = Inr n' \<and>
     self_x n' = self_x n \<and> self_y n' = self_y n \<and> self_z n' = self_z n \<and>
     self_th n' = self_th n \<and> speed n' = speed n \<and> turn n' = turn n \<and>
     (\<exists>n'' m. publish_twist later n' = Inr n'' \<and> published n'' = published n' @ [m] \<and>
        twist_of m =
          \<lparr>twist_linear = \<lparr>vec_x = self_x n * speed n, vec_y = self_y n * speed n,
                            vec_z = self_z n * speed n\<rparr>,
           twist_angular = \<lparr>vec_x = 0, vec_y = 0, vec_z = self_th n * turn n\<rparr>\<rparr>)"
proof -
  assume "msg_ok n"
  from stop_ok [OF this, of now] obtain n' where
    s: "stop now n = Inr n'" "intent n' = intent n" "speed n' = speed n" "turn n' = turn n"
      "msg_ok n'"
    by blast
  from publish_twist_ok [OF s(5), of later] obtain n'' where
    p: "publish_twist later n' = Inr n''" "published n'' = published n' @ [twist_msg n'']"
      "twist_of (twist_msg n'') =
          \<lparr>twist_linear = \<lparr>vec_x = self_x n' * speed n', vec_y = self_y n' * speed n',
                            vec_z = self_z n' * speed n'\<rparr>,
           twist_angular = \<lparr>vec_x = 0, vec_y = 0, vec_z = self_th n' * turn n'\<rparr>\<rparr>"
    by blast
  from s(2) have i: "self_x n' = self_x n" "self_y n' = self_y n" "self_z n' = self_z n"
    "self_th n' = self_th n" by (simp_all add: intent_def)
  show ?thesis
    using s(1,3,4) i p by (intro exI [of _ n'] conjI exI [of _ n''] exI [of _ "twist_msg n''"]) simp_all
qed

text \<open>After the key \<open>i\<close>, a tick that follows \<open>stop\<close> publishes 0.5 forward, not zero.\<close>

theorem stop_keeps_velocity_state_witness:
  "msg_ok (process_key ''i'' default_node) \<and>
   (\<exists>n'. stop 1 (process_key ''i'' default_node) = Inr n' \<and> self_x n' = 1 \<and> speed n' = 0.5 \<and>
     (\<exists>n'' m. publish_twist 2 n' = Inr n'' \<and> published n'' = published n' @ [m] \<and>
        twist_of m = \<lparr>twist_linear = \<lparr>vec_x = 0.5, vec_y = 0, vec_z = 0\<rparr>,
                      twist_angular = \<lparr>vec_x = 0, vec_y = 0, vec_z = 0\<rparr>\<rparr> \<and>
        twist_of m \<noteq> zero_twist))"
proof -
  let ?n = "process_key ''i'' default_node"
  have ok: "msg_ok ?n" by (simp add: process_key_msg_ok default_node_msg_ok)
  have i: "intent ?n = (1, 0, 0, 0)" "speed ?n = 0.5" "turn ?n = 1"
    using process_move_key [OF i_binding, of default_node] by (simp_all add: default_node_def)
  then have j: "self_x ?n = 1" "self_y ?n = 0" "self_z ?n = 0" "self_th ?n = 0"
    by (simp_all add: intent_def)
  from stop_keeps_velocity_state [OF ok, of 1 2] show ?thesis
    using ok i(2,3) j by (auto simp: zero_twist_def zero_vector_def)
qed

subsection \<open>C4: sequences of speed keys\<close>

text \<open>
  Claim C4. From the initial scales (0.5 and 1.0), after any finite sequence of speed
  keys the linear scale is 0.5 times the product of the linear factors of the keys
  pressed and the angular scale is 1.0 times the product of their angular factors; as
  the loop computes them, they are the left folds of the multiplication over the
  factors, in the order pressed. Nothing clamps either value (see also
  \<open>scales_grow_without_bound\<close> and \<open>scales_shrink_without_bound\<close>).
\<close>

theorem speed_keys_product:
  "init p = Inr n0 \<Longrightarrow> set ks \<subseteq> set (map fst speed_bindings) \<Longrightarrow>
     speed (get_key_loop (map Inr ks) n0) =
       0.5 * prod_list (map (\<lambda>k. fst (the (map_of speed_bindings k))) ks) \<and>
     turn (get_key_loop (map Inr ks) n0) =
       1.0 * prod_list (map (\<lambda>k. snd (the (map_of speed_bindings k))) ks) \<and>
     speed (get_key_loop (map Inr ks) n0) =
       foldl (*) 0.5 (map (\<lambda>k. fst (the (map_of speed_bindings k))) ks) \<and>
     turn (get_key_loop (map Inr ks) n0) =
       foldl (*) 1.0 (map (\<lambda>k. snd (the (map_of speed_bindings k))) ks)"
proof -
  assume i: "init p = Inr n0" and s: "set ks \<subseteq> set (map fst speed_bindings)"
  let ?n = "print_line (vels n0) (print_line HELP_MSG n0)"
  have f: "speed ?n = 0.5" "turn ?n = 1" "running ?n"
    using init_fields [OF i] by (simp_all add: print_line_def)
  from key_loop_speed_keys [OF s f(3)] f(1,2) show ?thesis
    by (simp add: get_key_loop_def foldl_times)
qed

theorem speed_keys_product_witness:
  "init default_parameters = Inr default_node \<and>
   set [''q'', ''x'', ''e''] \<subseteq> set (map fst speed_bindings) \<and>
   speed (get_key_loop (map Inr [''q'', ''x'', ''e'']) default_node) = 0.495 \<and>
   turn (get_key_loop (map Inr [''q'', ''x'', ''e'']) default_node) = 1.21"
proof -
  have s: "set [''q'', ''x'', ''e''] \<subseteq> set (map fst speed_bindings)"
    by (simp add: speed_bindings_def)
  have l: "map_of speed_bindings ''q'' = Some (1.1, 1.1)" "map_of speed_bindings ''x'' = Some (0.9, 1)"
    "map_of speed_bindings ''e'' = Some (1, 1.1)"
    by (simp_all add: speed_bindings_def)
  from speed_keys_product [OF init_default s] show ?thesis
    using init_default s by (simp add: l)
qed

subsection \<open>C5: the key q three times\<close>




subsection \<open>C6: the final stop command\<close>

text \<open>
  Claim C6. \<open>stop\<close> publishes a command whose six velocity fields are all zero, whatever
  intent and scales the node holds; and once the node is constructed, \<open>main\<close> publishes
  that command last on every way out of \<open>rclpy.spin\<close>: when it returns, on
  KeyboardInterrupt, and on any other exception (which then leaves \<open>main\<close>), whatever
  the reader and the timer did before, the reader's own error path included.
\<close>

theorem stop_always_published:
  "(msg_ok n \<longrightarrow>
      (\<exists>n' m. stop now n = Inr n' \<and> published n' = published n @ [m] \<and>
         twist_of m = \<lparr>twist_linear = \<lparr>vec_x = 0, vec_y = 0, vec_z = 0\<rparr>,
                       twist_angular = \<lparr>vec_x = 0, vec_y = 0, vec_z = 0\<rparr>\<rparr>)) \<and>
   (init p = Inr n0 \<longrightarrow>
      (\<exists>ms m. main p sched ending later =
           ((if ending = Some KeyboardInterrupt then None else ending), ms @ [m]) \<and>
         twist_of m = \<lparr>twist_linear = \<lparr>vec_x = 0, vec_y = 0, vec_z = 0\<rparr>,
                       twist_angular = \<lparr>vec_x = 0, vec_y = 0, vec_z = 0\<rparr>\<rparr>))"
proof (intro conjI impI)
  assume "msg_ok n"
  from stop_ok [OF this, of now] obtain n' where
    "stop now n = Inr n'" "published n' = published n @ [twist_msg n']"
    "twist_of (twist_msg n') = zero_twist" by blast
  then show "\<exists>n' m. stop now n = Inr n' \<and> published n' = published n @ [m] \<and>
         twist_of m = \<lparr>twist_linear = \<lparr>vec_x = 0, vec_y = 0, vec_z = 0\<rparr>,
                       twist_angular = \<lparr>vec_x = 0, vec_y = 0, vec_z = 0\<rparr>\<rparr>"
    unfolding zero_twist_fields by blast
next
  assume "init p = Inr n0"
  from main_publishes_stop [OF this, of sched ending later]
  show "\<exists>ms m. main p sched ending later =
           ((if ending = Some KeyboardInterrupt then None else ending), ms @ [m]) \<and>
         twist_of m = \<lparr>twist_linear = \<lparr>vec_x = 0, vec_y = 0, vec_z = 0\<rparr>,
                       twist_angular = \<lparr>vec_x = 0, vec_y = 0, vec_z = 0\<rparr>\<rparr>"
    unfolding zero_twist_fields by blast
qed

text \<open>
  A session in which the key \<open>i\<close> is pressed, the timer fires once, the reader then fails
  and \<open>spin\<close> ends with an exception (see \<open>main_example\<close> for the two messages).
\<close>

theorem stop_always_published_witness:
  "msg_ok default_node \<and> init default_parameters = Inr default_node \<and>
   (\<exists>n' m. stop 2 default_node = Inr n' \<and> published n' = published default_node @ [m] \<and>
      twist_of m = \<lparr>twist_linear = \<lparr>vec_x = 0, vec_y = 0, vec_z = 0\<rparr>,
                    twist_angular = \<lparr>vec_x = 0, vec_y = 0, vec_z = 0\<rparr>\<rparr>) \<and>
   (\<exists>ms m. main default_parameters
        ([Reader, Reader, Key ''i'', Reader, Reader, Reader] @ tick 1 @ [Reader, Read_error])
        (Some RCLError) 2 = (Some RCLError, ms @ [m]) \<and>
      twist_of m = \<lparr>twist_linear = \<lparr>vec_x = 0, vec_y = 0, vec_z = 0\<rparr>,
                    twist_angular = \<lparr>vec_x = 0, vec_y = 0, vec_z = 0\<rparr>\<rparr>)"
  using stop_always_published [of default_node 2 default_parameters default_node
      "[Reader, Reader, Key ''i'', Reader, Reader, Reader] @ tick 1 @ [Reader, Read_error]"
      "Some RCLError" 2]
    default_node_msg_ok init_default
  by simp

subsection \<open>C7: the frame id\<close>

text \<open>
  Claim C7. The constructor does raise on a frame id without stamped mode
  (\<open>init_rejects_frame_id\<close>), it succeeds in stamped mode (\<open>init_stamped\<close>), and every
  message of a publish tick carries the configured frame id (\<open>tick_carries_frame_id\<close>).
  But \<open>stop\<close> stamps the header without writing its frame id (line 209, against line
  190): when the session ends before the first tick, the one message published, the stop
  command, has the empty frame id of a new message, not \<open>base_link\<close>.
\<close>

theorem stop_before_first_tick_frame_id:
  "main \<lparr>param_stamped = True, param_frame_id = ''base_link'', param_repeat_rate = 10\<rparr>
     [] (Some KeyboardInterrupt) 5 =
   (None,
    [TwistStamped \<lparr>stamp = 5, header_frame_id = []\<rparr>
       \<lparr>twist_linear = \<lparr>vec_x = 0, vec_y = 0, vec_z = 0\<rparr>,
        twist_angular = \<lparr>vec_x = 0, vec_y = 0, vec_z = 0\<rparr>\<rparr>])"
  by (simp add: main_def run_defs)

subsection \<open>C8: the intent under interleaving\<close>

text \<open>
  The publisher can observe a partly written intent, in two ways. First, inside a
  handler: after the key \<open>u\<close> the intent is (1, 0, 0, 1) and the key \<open>J\<close> is bound to
  (0, 1, 0, 0); a tick that runs after the reader has run lines 154 and 155 for \<open>J\<close> and
  before it runs lines 156 and 157 reads (0, 1, 0, 1) and publishes linear (0, 0.5, 0)
  with angular z 1. Second, across a handler: after the key \<open>i\<close> the callback runs lines
  195 and 196, the reader then handles the key \<open>t\<close> from its first statement to its
  last, and the callback runs lines 197 to 203; it has read (1, 0, 1, 0) and publishes
  linear (0.5, 0, 0.5), although the reader was between two keystrokes at every step of
  the callback. Neither tuple is the old intent, the new one, or bound to any key.
\<close>

theorem torn_intent_observed:
  "intent (fst (snd (spin [Reader, Reader, Key ''u'', Reader, Reader, Reader, Reader]
       (default_node, Start, Idle)))) = (1, 0, 0, 1) \<and>
   map_of move_bindings ''J'' = Some (0, 1, 0, 0) \<and>
   spin ([Reader, Reader, Key ''u'', Reader, Reader, Reader, Reader, Key ''J'', Reader] @ tick 7)
       (default_node, Start, Idle) =
     (None,
      default_node\<lparr>self_x := 0, self_y := 1, self_th := 1,
        twist_msg := Twist \<lparr>twist_linear = \<lparr>vec_x = 0, vec_y = 0.5, vec_z = 0\<rparr>,
                             twist_angular = \<lparr>vec_x = 0, vec_y = 0, vec_z = 1\<rparr>\<rparr>,
        published := [Twist \<lparr>twist_linear = \<lparr>vec_x = 0, vec_y = 0.5, vec_z = 0\<rparr>,
                             twist_angular = \<lparr>vec_x = 0, vec_y = 0, vec_z = 1\<rparr>\<rparr>],
        console := [HELP_MSG, Vels 0.5 1]\<rparr>,
      Move_z ''J'', Idle) \<and>
   \<not> settled (0, 1, 0, 1) \<and>
   map_of move_bindings ''i'' = Some (1, 0, 0, 0) \<and>
   map_of move_bindings ''t'' = Some (0, 0, 1, 0) \<and>
   spin [Reader, Reader, Key ''i'', Reader, Reader, Reader, Reader,
         Timer 7, Publisher, Publisher, Publisher, Publisher,
         Key ''t'', Reader, Reader, Reader, Reader,
         Publisher, Publisher, Publisher, Publisher, Publisher, Publisher, Publisher]
       (default_node, Start, Idle) =
     (None,
      default_node\<lparr>self_z := 1,
        twist_msg := Twist \<lparr>twist_linear = \<lparr>vec_x = 0.5, vec_y = 0, vec_z = 0.5\<rparr>,
                             twist_angular = \<lparr>vec_x = 0, vec_y = 0, vec_z = 0\<rparr>\<rparr>,
        published := [Twist \<lparr>twist_linear = \<lparr>vec_x = 0.5, vec_y = 0, vec_z = 0.5\<rparr>,
                             twist_angular = \<lparr>vec_x = 0, vec_y = 0, vec_z = 0\<rparr>\<rparr>],
        console := [HELP_MSG, Vels 0.5 1]\<rparr>,
      In_get_key, Idle) \<and>
   \<not> settled (1, 0, 1, 0)"
proof -
  have 1: "intent (fst (snd (spin [Reader, Reader, Key ''u'', Reader, Reader, Reader, Reader]
       (default_node, Start, Idle)))) = (1, 0, 0, 1)"
    by (simp add: run_defs)
  have 2: "map_of move_bindings ''J'' = Some (0, 1, 0, 0)"
    "map_of move_bindings ''i'' = Some (1, 0, 0, 0)"
    "map_of move_bindings ''t'' = Some (0, 0, 1, 0)"
    by (simp_all add: move_bindings_def)
  have 3: "\<not> settled (0, 1, 0, 1)" "\<not> settled (1, 0, 1, 0)"
    by (simp_all add: settled_def move_bindings_def)
  from 1 2 3 torn_inside_handler torn_across_handler show ?thesis by (intro conjI)
qed

text \<open>
  Claim C8, amended. The code takes no lock: a handler writes the four components of the
  intent by four assignments, and the callback reads them by four statements. Run with
  no step of the callback in between, a handler is \<open>process_key\<close> and replaces the whole
  intent. In every run, whenever the reader is not between the first and the last of
  its assignments, the intent held by the node is the zero tuple or a bound tuple; and
  a tick that starts at such a moment and during which the reader takes no step
  publishes exactly that intent, scaled.
\<close>

theorem quiet_tick_publishes_settled_intent:
  "init p = Inr n0 \<Longrightarrow> spin sched (n0, Start, Idle) = (r, n, rpc, Idle) \<Longrightarrow>
   \<not> in_handler rpc \<Longrightarrow>
     settled (intent n) \<and>
     (\<exists>n' m. spin (tick now) (n, rpc, Idle) = (None, n', rpc, Idle) \<and>
        published n' = published n @ [m] \<and>
        twist_of m =
          \<lparr>twist_linear = \<lparr>vec_x = self_x n * speed n, vec_y = self_y n * speed n,
                            vec_z = self_z n * speed n\<rparr>,
           twist_angular = \<lparr>vec_x = 0, vec_y = 0, vec_z = self_th n * turn n\<rparr>\<rparr>) \<and>
     fst (snd (spin (Key k # replicate 4 Reader) (n, In_get_key, ppc))) = process_key k n"
proof -
  assume i: "init p = Inr n0" and s: "spin sched (n0, Start, Idle) = (r, n, rpc, Idle)"
    and h: "\<not> in_handler rpc"
  have hd: "in_header Idle \<longrightarrow> stamped n0" by simp
  from spin_ok [OF init_msg_ok [OF i] init_inv [OF i] hd, of sched] s
  have ok: "msg_ok n" and inv: "reader_inv rpc n" by auto
  from inv h have 1: "settled (intent n)" by (simp add: reader_inv_outside)
  from tick_uninterrupted [OF ok, of now rpc] obtain n' where
    t: "publish_twist now n = Inr n'" "spin (tick now) (n, rpc, Idle) = (None, n', rpc, Idle)"
    by blast
  from publish_twist_ok [OF ok, of now] t(1) have
    "published n' = published n @ [twist_msg n']"
    "twist_of (twist_msg n') =
          \<lparr>twist_linear = \<lparr>vec_x = self_x n * speed n, vec_y = self_y n * speed n,
                            vec_z = self_z n * speed n\<rparr>,
           twist_angular = \<lparr>vec_x = 0, vec_y = 0, vec_z = self_th n * turn n\<rparr>\<rparr>"
    by auto
  with 1 t(2) handler_uninterrupted [of k n ppc] show ?thesis by blast
qed

theorem quiet_tick_publishes_settled_intent_witness:
  "init default_parameters = Inr default_node \<and>
   spin [Reader, Reader, Key ''u'', Reader, Reader, Reader] (default_node, Start, Idle) =
     (None, default_node\<lparr>self_x := 1, self_th := 1, console := [HELP_MSG, Vels 0.5 1]\<rparr>,
      While_test, Idle) \<and>
   \<not> in_handler While_test \<and>
   settled (intent (default_node\<lparr>self_x := 1, self_th := 1,
      console := [HELP_MSG, Vels 0.5 1]\<rparr>)) \<and>
   (\<exists>n' m. spin (tick 7)
        (default_node\<lparr>self_x := 1, self_th := 1, console := [HELP_MSG, Vels 0.5 1]\<rparr>,
         While_test, Idle) = (None, n', While_test, Idle) \<and>
      published n' = [m] \<and>
      twist_of m = \<lparr>twist_linear = \<lparr>vec_x = 0.5, vec_y = 0, vec_z = 0\<rparr>,
                    twist_angular = \<lparr>vec_x = 0, vec_y = 0, vec_z = 1\<rparr>\<rparr>)"
proof -
  let ?n = "default_node\<lparr>self_x := 1, self_th := 1, console := [HELP_MSG, Vels 0.5 1]\<rparr>"
  have s: "spin [Reader, Reader, Key ''u'', Reader, Reader, Reader] (default_node, Start, Idle) =
     (None, ?n, While_test, Idle)"
    by (simp add: run_defs)
  have h: "\<not> in_handler While_test" by simp
  have f: "self_x ?n * speed ?n = 0.5" "self_y ?n * speed ?n = 0" "self_z ?n * speed ?n = 0"
    "self_th ?n * turn ?n = 1" "published ?n = []"
    by (simp_all add: default_node_def)
  from quiet_tick_publishes_settled_intent [OF init_default s h, of 7] init_default s h
  show ?thesis unfolding f by simp
qed

end
